theory Spec2Isabelle
  imports Complex_Main "HOL-Library.Log_Nat"
begin

section \<open>Python numbers\<close>

text \<open>
  The program computes with Python \<open>int\<close> (unbounded) and \<open>float\<close> (IEEE 754 binary64,
  round to nearest, ties to even). A float is represented by the rational number it
  denotes; every float operation is the exact operation followed by \<open>fl\<close>, the rounding
  to the nearest binary64 value. Magnitudes of 2^1024 and more (where binary64 overflows)
  are not modelled: the program divides, multiplies by 100 and adds scores of at most 10.
\<close>

datatype py_error = NameError | ZeroDivisionError | KeyError

datatype pynum = PInt int | PFloat rat

text \<open>Round a rational to the nearest integer, a tie to the even neighbour.\<close>

definition rhe :: "rat \<Rightarrow> int" where
  "rhe x =
     (let f = \<lfloor>x\<rfloor>; r = x - of_int f
      in if r < 1 / 2 then f
         else if 1 / 2 < r then f + 1
         else if even f then f else f + 1)"

text \<open>The binary exponent of a positive rational: \<open>2 powi ilog2 q \<le> q < 2 powi (ilog2 q + 1)\<close>.\<close>

definition ilog2 :: "rat \<Rightarrow> int" where
  "ilog2 q =
     (let a = fst (quotient_of q); b = snd (quotient_of q);
          k = bitlen a - bitlen b
      in if (2::rat) powi k \<le> q then k else k - 1)"

text \<open>
  Rounding to binary64: 53 significant bits, the exponent of the last place not below
  -1074 (gradual underflow).
\<close>

definition fl :: "rat \<Rightarrow> rat" where
  "fl q =
     (if q = 0 then 0
      else let e = max (ilog2 \<bar>q\<bar> - 52) (- 1074)
           in of_int (rhe (q / 2 powi e)) * 2 powi e)"

text \<open>The value of a number, and its conversion to float (as \<open>float(x)\<close> does).\<close>

fun num_val :: "pynum \<Rightarrow> rat" where
  "num_val (PInt a) = of_int a"
| "num_val (PFloat q) = q"

fun to_float :: "pynum \<Rightarrow> rat" where
  "to_float (PInt a) = fl (of_int a)"
| "to_float (PFloat q) = q"

text \<open>\<open>x + y\<close>: exact on two ints, otherwise both operands as floats and the sum rounded.\<close>

fun py_add :: "pynum \<Rightarrow> pynum \<Rightarrow> pynum" where
  "py_add (PInt a) (PInt b) = PInt (a + b)"
| "py_add x y = PFloat (fl (to_float x + to_float y))"

text \<open>\<open>x * y\<close>, likewise.\<close>

fun py_mul :: "pynum \<Rightarrow> pynum \<Rightarrow> pynum" where
  "py_mul (PInt a) (PInt b) = PInt (a * b)"
| "py_mul x y = PFloat (fl (to_float x * to_float y))"

text \<open>
  \<open>x / y\<close> (true division): always a float; of two ints it is the correctly rounded
  quotient; a zero divisor raises ZeroDivisionError.
\<close>

fun py_truediv :: "pynum \<Rightarrow> pynum \<Rightarrow> py_error + pynum" where
  "py_truediv (PInt a) (PInt b) =
     (if b = 0 then Inl ZeroDivisionError else Inr (PFloat (fl (of_int a / of_int b))))"
| "py_truediv x y =
     (if to_float y = 0 then Inl ZeroDivisionError
      else Inr (PFloat (fl (to_float x / to_float y))))"

text \<open>
  \<open>round(x, 1)\<close>: an int is returned as it is; a float is rounded to the nearest multiple
  of 1/10 of its exact value, a tie to the even multiple, and the result is the float
  nearest to that decimal.
\<close>

fun py_round1 :: "pynum \<Rightarrow> pynum" where
  "py_round1 (PInt a) = PInt a"
| "py_round1 (PFloat q) = PFloat (fl (of_int (rhe (q * 10)) / 10))"

text \<open>\<open>sum(xs)\<close>: additions from the left, starting from the int 0.\<close>

definition py_sum :: "pynum list \<Rightarrow> pynum" where
  "py_sum xs = foldl py_add (PInt 0) xs"


section \<open>Attachee\<close>

text \<open>
  A task and a feedback entry are dicts with fixed keys; an Attachee is an object with
  five attributes. \<open>score\<close> starts as the int 0 and becomes a float with the first feedback.
\<close>

record task_dict =
  description :: string
  completed :: bool
  deadline :: "string option"

record feedback_dict =
  fb_text :: string
  rating :: int
  date :: string

record attachee =
  name :: string
  division :: string
  tasks :: "task_dict list"
  feedback :: "feedback_dict list"
  score :: pynum

text \<open>
  What the operations print, one constructor per \<open>print\<close> call of the source, carrying the
  values the message interpolates (the formatting of the text itself is not modelled).
\<close>

datatype msg =
    TaskAssigned string string
  | RatingError
  | FeedbackRecorded string
  | TaskComplete string
  | InvalidTaskIndex
  | InvalidDivisionError
  | AttacheeAdded string string
  | InvalidDivision
  | Banner
  | SummaryTitle string
  | NoAttachees
  | AttacheeLine string
  | TasksLine int int pynum
  | FeedbackLine int
  | ScoreLine pynum
  | DivisionAverage pynum

text \<open>\<open>Attachee(name, division)\<close>, the constructor.\<close>

definition Attachee :: "string \<Rightarrow> string \<Rightarrow> attachee" where
  "Attachee n d = \<lparr>name = n, division = d, tasks = [], feedback = [], score = PInt 0\<rparr>"

definition assign_task :: "attachee \<Rightarrow> string \<Rightarrow> string option \<Rightarrow> attachee \<times> msg list" where
  "assign_task a task_description dl =
     (let task = \<lparr>description = task_description, completed = False, deadline = dl\<rparr>
      in (a\<lparr>tasks := tasks a @ [task]\<rparr>, [TaskAssigned (name a) task_description]))"

text \<open>
  \<open>_calculate_score\<close>: the total of the ratings is an int sum, the mean a true division
  of two ints, rounded to one decimal.
\<close>

definition calculate_score :: "attachee \<Rightarrow> py_error + attachee" where
  "calculate_score a =
     (if feedback a = [] then Inr (a\<lparr>score := PInt 0\<rparr>)
      else
        let total = sum_list (map rating (feedback a))
        in case py_truediv (PInt total) (PInt (int (length (feedback a)))) of
             Inl e \<Rightarrow> Inl e
           | Inr q \<Rightarrow> Inr (a\<lparr>score := py_round1 q\<rparr>))"

text \<open>
  \<open>add_feedback\<close> reads the module-level name \<open>datetime\<close> (line 46). The only import of
  it is line 181, inside the \<open>if __name__ == "__main__"\<close> block: the name is bound when the
  file runs as a script and unbound when the module is imported by a caller. The first
  argument is that binding when the method runs: \<open>None\<close> for unbound (the lookup raises
  NameError, before the entry is built or appended), \<open>Some d\<close> for bound, \<open>d\<close> being the
  string \<open>datetime.date.today().strftime("%Y-%m-%d")\<close> returns at that moment.
\<close>

definition add_feedback ::
  "string option \<Rightarrow> attachee \<Rightarrow> string \<Rightarrow> int \<Rightarrow> py_error + attachee \<times> msg list" where
  "add_feedback datetime a feedback_text r =
     (if \<not> (1 \<le> r \<and> r \<le> 10) then Inr (a, [RatingError])
      else case datetime of
             None \<Rightarrow> Inl NameError
           | Some today \<Rightarrow>
               let fb = \<lparr>fb_text = feedback_text, rating = r, date = today\<rparr>
               in case calculate_score (a\<lparr>feedback := feedback a @ [fb]\<rparr>) of
                    Inl e \<Rightarrow> Inl e
                  | Inr a' \<Rightarrow> Inr (a', [FeedbackRecorded (name a)]))"

definition complete_task :: "attachee \<Rightarrow> int \<Rightarrow> attachee \<times> msg list" where
  "complete_task a task_index =
     (if 0 \<le> task_index \<and> task_index < int (length (tasks a))
      then let i = nat task_index;
               ts = (tasks a)[i := (tasks a ! i)\<lparr>completed := True\<rparr>]
           in (a\<lparr>tasks := ts\<rparr>, [TaskComplete (description (ts ! i))])
      else (a, [InvalidTaskIndex]))"

record report =
  r_name :: string
  r_division :: string
  total_tasks :: int
  completed_tasks :: int
  completion_rate :: pynum
  feedback_count :: int
  average_score :: pynum

definition get_performance_report :: "attachee \<Rightarrow> py_error + report" where
  "get_performance_report a =
     (let n_completed = sum_list (map (\<lambda>task. (1::int)) (filter completed (tasks a)))
      in case (if tasks a \<noteq> []
               then (case py_truediv (PInt n_completed) (PInt (int (length (tasks a)))) of
                       Inl e \<Rightarrow> Inl e
                     | Inr q \<Rightarrow> Inr (py_mul q (PInt 100)))
               else Inr (PInt 0)) of
           Inl e \<Rightarrow> Inl e
         | Inr rate \<Rightarrow>
             Inr \<lparr>r_name = name a,
                  r_division = division a,
                  total_tasks = int (length (tasks a)),
                  completed_tasks = n_completed,
                  completion_rate = py_round1 rate,
                  feedback_count = int (length (feedback a)),
                  average_score = score a\<rparr>)"

section \<open>DivisionManager\<close>

definition DIVISIONS :: "string list" where
  "DIVISIONS = [''Engineering'', ''Tech Programs'', ''Radio Support'', ''Hub Support'']"

text \<open>\<open>attachees\<close> is a dict from division name to the list of its Attachee objects.\<close>

record division_manager =
  attachees :: "string \<rightharpoonup> attachee list"

text \<open>\<open>DivisionManager()\<close>, the constructor: an empty list under each of the four names.\<close>

definition DivisionManager :: division_manager where
  "DivisionManager = \<lparr>attachees = map_of (map (\<lambda>d. (d, [])) DIVISIONS)\<rparr>"

definition add_attachee ::
  "division_manager \<Rightarrow> string \<Rightarrow> string \<Rightarrow> py_error + division_manager \<times> bool \<times> msg list" where
  "add_attachee m n d =
     (if d \<notin> set DIVISIONS then Inr (m, False, [InvalidDivisionError])
      else let new_attachee = Attachee n d
           in case attachees m d of
                None \<Rightarrow> Inl KeyError
              | Some xs \<Rightarrow>
                  Inr (m\<lparr>attachees := (attachees m)(d \<mapsto> xs @ [new_attachee])\<rparr>,
                       True, [AttacheeAdded n d]))"

text \<open>The loop of \<open>assign_division_task\<close> over the division's list.\<close>

fun assign_each :: "attachee list \<Rightarrow> string \<Rightarrow> attachee list \<times> msg list" where
  "assign_each [] task_description = ([], [])"
| "assign_each (a # as) task_description =
     (let (a', out) = assign_task a task_description None;
          (as', outs) = assign_each as task_description
      in (a' # as', out @ outs))"

definition assign_division_task ::
  "division_manager \<Rightarrow> string \<Rightarrow> string \<Rightarrow> division_manager \<times> msg list" where
  "assign_division_task m d task_description =
     (case attachees m d of
        None \<Rightarrow> (m, [InvalidDivision])
      | Some xs \<Rightarrow>
          let (xs', out) = assign_each xs task_description
          in (m\<lparr>attachees := (attachees m)(d \<mapsto> xs')\<rparr>, out))"

text \<open>The list comprehension of \<open>get_division_performance\<close>; the first exception ends it.\<close>

fun reports_of :: "attachee list \<Rightarrow> py_error + report list" where
  "reports_of [] = Inr []"
| "reports_of (a # as) =
     (case get_performance_report a of
        Inl e \<Rightarrow> Inl e
      | Inr r \<Rightarrow> (case reports_of as of Inl e \<Rightarrow> Inl e | Inr rs \<Rightarrow> Inr (r # rs)))"

definition get_division_performance ::
  "division_manager \<Rightarrow> string \<Rightarrow> py_error + report list \<times> msg list" where
  "get_division_performance m d =
     (case attachees m d of
        None \<Rightarrow> Inr ([], [InvalidDivision])
      | Some xs \<Rightarrow> (case reports_of xs of Inl e \<Rightarrow> Inl e | Inr rs \<Rightarrow> Inr (rs, [])))"

text \<open>The four lines printed for one report.\<close>

definition report_lines :: "report \<Rightarrow> msg list" where
  "report_lines r =
     [AttacheeLine (r_name r),
      TasksLine (completed_tasks r) (total_tasks r) (completion_rate r),
      FeedbackLine (feedback_count r),
      ScoreLine (average_score r)]"

definition display_division_summary :: "division_manager \<Rightarrow> string \<Rightarrow> py_error + msg list" where
  "display_division_summary m d =
     (case attachees m d of
        None \<Rightarrow> Inr [InvalidDivision]
      | Some _ \<Rightarrow>
          let header = [Banner, SummaryTitle d, Banner]
          in case get_division_performance m d of
               Inl e \<Rightarrow> Inl e
             | Inr (performance_reports, out) \<Rightarrow>
                 if performance_reports = [] then Inr (header @ out @ [NoAttachees])
                 else
                   let body = concat (map report_lines performance_reports)
                   in case py_truediv (py_sum (map average_score performance_reports))
                                      (PInt (int (length performance_reports))) of
                        Inl e \<Rightarrow> Inl e
                      | Inr avg_score \<Rightarrow>
                          Inr (header @ out @ body @ [DivisionAverage (py_round1 avg_score)]))"

section \<open>Sequences of operations\<close>

text \<open>
  The public operations of an Attachee, and the state one call leaves behind. A call that
  raises leaves the state it found: the only raise of \<open>add_feedback\<close> that can happen
  comes before its first assignment.
\<close>

datatype attachee_op =
    AssignTask string "string option"
  | AddFeedback string int
  | CompleteTask int
  | GetPerformanceReport

fun attachee_step :: "string option \<Rightarrow> attachee \<Rightarrow> attachee_op \<Rightarrow> attachee" where
  "attachee_step g a (AssignTask d dl) = fst (assign_task a d dl)"
| "attachee_step g a (AddFeedback t r) =
     (case add_feedback g a t r of Inl e \<Rightarrow> a | Inr (a', out) \<Rightarrow> a')"
| "attachee_step g a (CompleteTask i) = fst (complete_task a i)"
| "attachee_step g a GetPerformanceReport = a"

inductive attachee_reachable :: "attachee \<Rightarrow> bool" where
  created: "attachee_reachable (Attachee n d)"
| called: "attachee_reachable a \<Longrightarrow> attachee_reachable (attachee_step g a opn)"

definition attachee_inv :: "attachee \<Rightarrow> bool" where
  "attachee_inv a \<longleftrightarrow>
     (\<forall>fb \<in> set (feedback a). 1 \<le> rating fb \<and> rating fb \<le> 10) \<and>
     0 \<le> num_val (score a) \<and> num_val (score a) \<le> 10 \<and>
     (num_val (score a) = 0 \<longleftrightarrow> feedback a = [])"

text \<open>
  The public operations of a DivisionManager. \<open>MemberOp d i opn\<close> is a call of an Attachee
  operation on \<open>attachees[d][i]\<close>, which a caller reaches through the public attribute
  (as the example at the end of the source does).
\<close>

datatype manager_op =
    AddAttachee string string
  | AssignDivisionTask string string
  | GetDivisionPerformance string
  | DisplayDivisionSummary string
  | MemberOp string nat attachee_op

fun manager_step :: "string option \<Rightarrow> division_manager \<Rightarrow> manager_op \<Rightarrow> division_manager" where
  "manager_step g m (AddAttachee n d) =
     (case add_attachee m n d of Inl e \<Rightarrow> m | Inr (m', ok, out) \<Rightarrow> m')"
| "manager_step g m (AssignDivisionTask d t) = fst (assign_division_task m d t)"
| "manager_step g m (GetDivisionPerformance d) = m"
| "manager_step g m (DisplayDivisionSummary d) = m"
| "manager_step g m (MemberOp d i opn) =
     (case attachees m d of
        None \<Rightarrow> m
      | Some xs \<Rightarrow>
          if i < length xs
          then m\<lparr>attachees := (attachees m)(d \<mapsto> xs[i := attachee_step g (xs ! i) opn])\<rparr>
          else m)"

inductive manager_reachable :: "division_manager \<Rightarrow> bool" where
  constructed: "manager_reachable DivisionManager"
| operated: "manager_reachable m \<Longrightarrow> manager_reachable (manager_step g m opn)"

definition has_division_keys :: "division_manager \<Rightarrow> bool" where
  "has_division_keys m \<longleftrightarrow> dom (attachees m) = set DIVISIONS"

definition manager_inv :: "division_manager \<Rightarrow> bool" where
  "manager_inv m \<longleftrightarrow>
     has_division_keys m \<and>
     (\<forall>d xs. attachees m d = Some xs \<longrightarrow> (\<forall>a \<in> set xs. division a = d))"

section \<open>Rounding to one decimal\<close>

text \<open>
  \<open>rounds_to_tenth q x\<close>: the number \<open>x\<close> is the float of a multiple of 1/10 that is nearest
  to the exact value \<open>q\<close>; on a tie either neighbour qualifies.
\<close>

definition rounds_to_tenth :: "rat \<Rightarrow> pynum \<Rightarrow> bool" where
  "rounds_to_tenth q x \<longleftrightarrow>
     (x = PFloat (fl (of_int \<lfloor>q * 10\<rfloor> / 10)) \<and> q * 10 - of_int \<lfloor>q * 10\<rfloor> \<le> 1 / 2) \<or>
     (x = PFloat (fl (of_int \<lceil>q * 10\<rceil> / 10)) \<and> of_int \<lceil>q * 10\<rceil> - q * 10 \<le> 1 / 2)"

section \<open>Rounding: properties\<close>

lemma rhe_err: "\<bar>of_int (rhe x) - x\<bar> \<le> 1 / 2"
proof -
  have "of_int \<lfloor>x\<rfloor> \<le> x" "x < of_int \<lfloor>x\<rfloor> + 1" by linarith+
  then show ?thesis
    by (auto simp: rhe_def Let_def)
qed

lemma rhe_of_int [simp]: "rhe (of_int k) = k"
  by (simp add: rhe_def)

lemma rhe_ge: "of_int a \<le> x \<Longrightarrow> a \<le> rhe x"
proof -
  assume "of_int a \<le> x"
  then have "a \<le> \<lfloor>x\<rfloor>" by (simp add: le_floor_iff)
  then show ?thesis by (auto simp: rhe_def Let_def)
qed

lemma rhe_le: "x \<le> of_int b \<Longrightarrow> rhe x \<le> b"
proof -
  assume h: "x \<le> of_int b"
  show ?thesis
  proof (cases "x = of_int b")
    case True then show ?thesis by simp
  next
    case False
    with h have "x < of_int b" by simp
    then have "\<lfloor>x\<rfloor> < b" by (simp add: floor_less_iff)
    then show ?thesis by (auto simp: rhe_def Let_def)
  qed
qed

lemma ilog2_lower: "0 < q \<Longrightarrow> 2 powi (ilog2 q) \<le> q"
proof -
  assume q: "0 < q"
  define a where "a = fst (quotient_of q)"
  define b where "b = snd (quotient_of q)"
  define k where "k = bitlen a - bitlen b"
  have b: "0 < b" unfolding b_def by (rule quotient_of_denom_pos')
  have qab: "q = of_int a / of_int b"
    unfolding a_def b_def by (metis Fract_of_int_quotient Fract_quotient_of)
  have a: "0 < a" using q b qab by (simp add: zero_less_divide_iff)
  show ?thesis
  proof (cases "(2::rat) powi k \<le> q")
    case True
    then show ?thesis by (simp add: ilog2_def Let_def a_def b_def k_def)
  next
    case False
    then have il: "ilog2 q = k - 1" by (simp add: ilog2_def Let_def a_def b_def k_def)
    have la: "(2::int) ^ nat (bitlen a - 1) \<le> a" using bitlen_bounds [OF a] by simp
    have lb: "b < 2 ^ nat (bitlen b)" using bitlen_bounds [OF b] by simp
    have pa: "1 \<le> bitlen a" using a by (simp add: bitlen_alt_def)
    have pb: "0 \<le> bitlen b" by (rule bitlen_nonneg)
    have "(2::rat) powi (bitlen a - 1) = of_int (2 ^ nat (bitlen a - 1))"
      using pa by (simp add: power_int_nonneg_exp)
    also have "\<dots> \<le> of_int a" using la by (simp only: of_int_le_iff)
    finally have A: "(2::rat) powi (bitlen a - 1) \<le> of_int a" .
    have "b \<le> 2 ^ nat (bitlen b)" using lb by simp
    then have "(of_int b :: rat) \<le> of_int (2 ^ nat (bitlen b))" by (simp only: of_int_le_iff)
    also have "\<dots> = 2 powi (bitlen b)" using pb by (simp add: power_int_nonneg_exp)
    finally have B: "(of_int b :: rat) \<le> 2 powi (bitlen b)" .
    have "(2::rat) powi (k - 1) = 2 powi (bitlen a - 1) / 2 powi (bitlen b)"
      unfolding k_def by (simp add: power_int_diff)
    also have "\<dots> \<le> of_int a / 2 powi (bitlen b)"
      using A by (simp add: divide_right_mono)
    also have "\<dots> \<le> of_int a / of_int b"
      using B a b by (simp add: frac_le)
    finally show ?thesis using il qab by simp
  qed
qed

lemma ilog2_upper: "0 < q \<Longrightarrow> q < 2 powi (ilog2 q + 1)"
proof -
  assume q: "0 < q"
  define a where "a = fst (quotient_of q)"
  define b where "b = snd (quotient_of q)"
  define k where "k = bitlen a - bitlen b"
  have b: "0 < b" unfolding b_def by (rule quotient_of_denom_pos')
  have qab: "q = of_int a / of_int b"
    unfolding a_def b_def by (metis Fract_of_int_quotient Fract_quotient_of)
  have a: "0 < a" using q b qab by (simp add: zero_less_divide_iff)
  show ?thesis
  proof (cases "(2::rat) powi k \<le> q")
    case False
    then show ?thesis by (simp add: ilog2_def Let_def a_def b_def k_def)
  next
    case True
    then have il: "ilog2 q = k" by (simp add: ilog2_def Let_def a_def b_def k_def)
    have la: "a < (2::int) ^ nat (bitlen a)" using bitlen_bounds [OF a] by simp
    have lb: "2 ^ nat (bitlen b - 1) \<le> b" using bitlen_bounds [OF b] by simp
    have pa: "0 \<le> bitlen a" by (rule bitlen_nonneg)
    have pb: "1 \<le> bitlen b" using b by (simp add: bitlen_alt_def)
    have "(of_int a :: rat) < of_int (2 ^ nat (bitlen a))" using la by (simp only: of_int_less_iff)
    also have "\<dots> = 2 powi (bitlen a)" using pa by (simp add: power_int_nonneg_exp)
    finally have A: "(of_int a :: rat) < 2 powi (bitlen a)" .
    have "(2::rat) powi (bitlen b - 1) = of_int (2 ^ nat (bitlen b - 1))"
      using pb by (simp add: power_int_nonneg_exp)
    also have "\<dots> \<le> of_int b" using lb by (simp only: of_int_le_iff)
    finally have B: "(2::rat) powi (bitlen b - 1) \<le> of_int b" .
    have "of_int a / (of_int b :: rat) < 2 powi (bitlen a) / of_int b"
      using A b by (simp add: divide_strict_right_mono)
    also have "\<dots> \<le> 2 powi (bitlen a) / 2 powi (bitlen b - 1)"
      using B by (simp add: frac_le)
    also have "\<dots> = 2 powi (bitlen a - (bitlen b - 1))"
      by (simp add: power_int_diff)
    also have "\<dots> = 2 powi (k + 1)"
      unfolding k_def by (simp add: algebra_simps)
    finally show ?thesis using il qab by simp
  qed
qed

lemma ilog2_less: "0 < q \<Longrightarrow> q < 2 powi k \<Longrightarrow> ilog2 q < k"
proof (rule ccontr)
  assume q: "0 < q" and lt: "q < 2 powi k" and n: "\<not> ilog2 q < k"
  then have "(2::rat) powi k \<le> 2 powi (ilog2 q)"
    by (intro power_int_increasing) auto
  also have "\<dots> \<le> q" using q by (rule ilog2_lower)
  finally show False using lt by simp
qed

lemma fl_zero [simp]: "fl 0 = 0"
  by (simp add: fl_def)

lemma fl_eq:
  "q \<noteq> 0 \<Longrightarrow> e = max (ilog2 \<bar>q\<bar> - 52) (- 1074)
     \<Longrightarrow> fl q = of_int (rhe (q / 2 powi e)) * 2 powi e"
  by (simp add: fl_def Let_def)

lemma fl_err:
  assumes "\<bar>q\<bar> < 2 powi k" and "- 1021 \<le> k"
  shows "\<bar>fl q - q\<bar> \<le> 2 powi (k - 54)"
proof (cases "q = 0")
  case True
  then show ?thesis by simp
next
  case False
  define e where "e = max (ilog2 \<bar>q\<bar> - 52) (- 1074)"
  define x where "x = q / 2 powi e"
  have p: "(0::rat) < 2 powi e" by simp
  have "ilog2 \<bar>q\<bar> < k" using assms(1) False by (intro ilog2_less) auto
  then have ek: "e \<le> k - 53" using assms(2) by (simp add: e_def)
  have qx: "x * 2 powi e = q" by (simp add: x_def)
  have flq: "fl q = of_int (rhe x) * 2 powi e"
    unfolding x_def by (rule fl_eq [OF False e_def])
  have "fl q - q = (of_int (rhe x) - x) * 2 powi e"
    by (simp only: flq left_diff_distrib qx)
  then have "\<bar>fl q - q\<bar> = \<bar>of_int (rhe x) - x\<bar> * 2 powi e"
    by (simp add: abs_mult)
  also have "\<dots> \<le> (1 / 2) * 2 powi e"
    using rhe_err [of x] by (intro mult_right_mono) auto
  also have "\<dots> \<le> (1 / 2) * 2 powi (k - 53)"
    using ek by (intro mult_left_mono power_int_increasing) auto
  also have "\<dots> = 2 powi (k - 54)"
  proof -
    have "(2::rat) powi (k - 53) = 2 powi (k - 54 + 1)" by simp
    also have "\<dots> = 2 powi (k - 54) * 2" by (subst power_int_add) auto
    finally show ?thesis by simp
  qed
  finally show ?thesis .
qed

lemma fl_bounds:
  assumes "\<bar>q\<bar> < 2 ^ 53"
  shows "of_int a \<le> q \<Longrightarrow> of_int a \<le> fl q" and "q \<le> of_int b \<Longrightarrow> fl q \<le> of_int b"
proof -
  have both: "(of_int a \<le> q \<longrightarrow> of_int a \<le> fl q) \<and> (q \<le> of_int b \<longrightarrow> fl q \<le> of_int b)"
  proof (cases "q = 0")
    case True
    then show ?thesis by simp
  next
    case False
    define e where "e = max (ilog2 \<bar>q\<bar> - 52) (- 1074)"
    have "\<bar>q\<bar> < 2 powi 53" using assms by simp
    then have "ilog2 \<bar>q\<bar> < 53" using False by (intro ilog2_less) auto
    then have e0: "e \<le> 0" by (simp add: e_def)
    define j where "j = nat (- e)"
    have pe: "(2::rat) powi e = 1 / 2 ^ j"
      using e0 by (simp add: j_def power_int_def field_simps)
    have flq: "fl q = of_int (rhe (q * 2 ^ j)) / 2 ^ j"
      using fl_eq [OF False e_def] by (simp add: pe)
    show ?thesis
    proof (intro conjI impI)
      assume "of_int a \<le> q"
      then have "of_int (a * 2 ^ j) \<le> q * 2 ^ j" by simp
      then have "a * 2 ^ j \<le> rhe (q * 2 ^ j)" by (rule rhe_ge)
      then have "(of_int (a * 2 ^ j) :: rat) \<le> of_int (rhe (q * 2 ^ j))"
        by (simp only: of_int_le_iff)
      then show "of_int a \<le> fl q" by (simp add: flq field_simps)
    next
      assume "q \<le> of_int b"
      then have "q * 2 ^ j \<le> of_int (b * 2 ^ j)" by simp
      then have "rhe (q * 2 ^ j) \<le> b * 2 ^ j" by (rule rhe_le)
      then have "(of_int (rhe (q * 2 ^ j)) :: rat) \<le> of_int (b * 2 ^ j)"
        by (simp only: of_int_le_iff)
      then show "fl q \<le> of_int b" by (simp add: flq field_simps)
    qed
  qed
  show "of_int a \<le> q \<Longrightarrow> of_int a \<le> fl q" using both by blast
  show "q \<le> of_int b \<Longrightarrow> fl q \<le> of_int b" using both by blast
qed

lemma fl_of_int: "\<bar>n\<bar> < 2 ^ 53 \<Longrightarrow> fl (of_int n) = of_int n"
proof -
  assume "\<bar>n\<bar> < 2 ^ 53"
  then have "\<bar>of_int n :: rat\<bar> < 2 ^ 53"
    by (metis of_int_abs of_int_less_iff of_int_numeral of_int_power)
  from fl_bounds(1) [OF this, of n] fl_bounds(2) [OF this, of n] show ?thesis by simp
qed

lemma near_round:
  fixes p n :: int and z :: rat
  assumes n: "0 < n" and close: "\<bar>z - of_int p / of_int n\<bar> < 1 / (2 * of_int n)"
  shows "\<bar>of_int (rhe z) - of_int p / of_int n :: rat\<bar> \<le> 1 / 2"
proof -
  define m where "m = rhe z"
  define d where "d = m * n - p"
  have nr: "(0::rat) < of_int n" using n by simp
  have eq: "of_int m - of_int p / of_int n = (of_int d :: rat) / of_int n"
    using nr by (simp add: d_def field_simps)
  have "\<bar>of_int m - of_int p / of_int n\<bar> \<le> \<bar>of_int m - z\<bar> + \<bar>z - of_int p / of_int n\<bar>"
    by simp
  also have "\<dots> < 1 / 2 + 1 / (2 * of_int n)"
    using rhe_err [of z] close by (simp add: m_def)
  finally have "\<bar>(of_int d :: rat) / of_int n\<bar> < 1 / 2 + 1 / (2 * of_int n)"
    by (simp only: eq)
  then have "\<bar>of_int d :: rat\<bar> / of_int n < (of_int n + 1) / (2 * of_int n)"
    using nr by (simp add: field_simps)
  then have "2 * \<bar>of_int d :: rat\<bar> < of_int n + 1"
    using nr by (simp add: field_simps)
  then have "(of_int (2 * \<bar>d\<bar>) :: rat) < of_int (n + 1)" by simp
  then have "2 * \<bar>d\<bar> < n + 1" by (simp only: of_int_less_iff)
  then have "2 * \<bar>d\<bar> \<le> n" by simp
  then have "(of_int (2 * \<bar>d\<bar>) :: rat) \<le> of_int n" by (simp only: of_int_le_iff)
  then have "\<bar>(of_int d :: rat) / of_int n\<bar> \<le> 1 / 2"
    using nr by (simp add: field_simps)
  then show ?thesis using eq by (simp add: m_def)
qed

lemma nearest_int_floor_ceiling:
  fixes m :: int and y :: rat
  assumes "\<bar>of_int m - y\<bar> \<le> 1 / 2"
  shows "(m = \<lfloor>y\<rfloor> \<and> y - of_int \<lfloor>y\<rfloor> \<le> 1 / 2) \<or> (m = \<lceil>y\<rceil> \<and> of_int \<lceil>y\<rceil> - y \<le> 1 / 2)"
proof (cases "of_int m \<le> y")
  case True
  then have "m \<le> \<lfloor>y\<rfloor>" by (simp add: le_floor_iff)
  moreover have "y - 1 / 2 \<le> of_int m" using assms by linarith
  then have "y < of_int m + 1" by simp
  then have "y < of_int (m + 1)" by simp
  then have "\<lfloor>y\<rfloor> < m + 1" by (simp only: floor_less_iff)
  ultimately have mf: "m = \<lfloor>y\<rfloor>" by simp
  moreover have "y - of_int m \<le> 1 / 2" using assms by linarith
  ultimately show ?thesis by simp
next
  case False
  then have "y < of_int m" by simp
  then have "\<lceil>y\<rceil> \<le> m" by (simp add: ceiling_le_iff)
  moreover have "of_int m \<le> y + 1 / 2" using assms by linarith
  then have "of_int m - 1 < y" by simp
  then have "of_int (m - 1) < y" by simp
  then have "m - 1 < \<lceil>y\<rceil>" by (simp only: less_ceiling_iff)
  ultimately have "m = \<lceil>y\<rceil>" by simp
  moreover have "of_int m - y \<le> 1 / 2" using assms by linarith
  ultimately show ?thesis by simp
qed

lemma rounds_to_tenthI:
  assumes "\<bar>of_int m - q * 10\<bar> \<le> 1 / 2"
  shows "rounds_to_tenth q (PFloat (fl (of_int m / 10)))"
  using nearest_int_floor_ceiling [OF assms] unfolding rounds_to_tenth_def by auto

section \<open>Attachee: properties\<close>

lemma add_feedback_invalid:
  "r < 1 \<or> 10 < r \<Longrightarrow> add_feedback g a t r = Inr (a, [RatingError])"
  by (auto simp: add_feedback_def)

text \<open>
  C2. For a rating below 1 or above 10, \<open>add_feedback\<close> returns normally (no exception,
  whatever the binding of \<open>datetime\<close>), and the Attachee it leaves is the one it found:
  no feedback entry appended, the count and the score as before.
\<close>

theorem add_feedback_out_of_range_unchanged:
  "r < 1 \<or> 10 < r \<Longrightarrow>
     (\<exists>out. add_feedback g a t r = Inr (a, out)) \<and>
     attachee_step g a (AddFeedback t r) = a"
  by (auto simp: add_feedback_def)

theorem add_feedback_out_of_range_unchanged_witness:
  "((11::int) < 1 \<or> 10 < (11::int)) \<and>
   (\<exists>out. add_feedback None (Attachee ''Alice'' ''Engineering'') ''Good'' 11
            = Inr (Attachee ''Alice'' ''Engineering'', out)) \<and>
   attachee_step None (Attachee ''Alice'' ''Engineering'') (AddFeedback ''Good'' 11)
     = Attachee ''Alice'' ''Engineering''"
  using add_feedback_out_of_range_unchanged
          [of 11 None "Attachee ''Alice'' ''Engineering''" "''Good''"]
  by simp

text \<open>
  C4. \<open>complete_task(i)\<close> never raises. With \<open>0 \<le> i < len(tasks)\<close> it sets the completed
  flag of task \<open>i\<close>, keeps that task's description and deadline, keeps every other task,
  the number of tasks and every other attribute. With \<open>i\<close> outside that range it changes
  nothing.
\<close>

theorem complete_task_frame:
  "(0 \<le> i \<and> i < int (length (tasks a)) \<longrightarrow>
      (let a' = fst (complete_task a i)
       in length (tasks a') = length (tasks a) \<and>
          completed (tasks a' ! nat i) \<and>
          description (tasks a' ! nat i) = description (tasks a ! nat i) \<and>
          deadline (tasks a' ! nat i) = deadline (tasks a ! nat i) \<and>
          (\<forall>j < length (tasks a). j \<noteq> nat i \<longrightarrow> tasks a' ! j = tasks a ! j) \<and>
          a' = a\<lparr>tasks := tasks a'\<rparr>)) \<and>
   (\<not> (0 \<le> i \<and> i < int (length (tasks a))) \<longrightarrow> complete_task a i = (a, [InvalidTaskIndex]))"
  by (auto simp: complete_task_def Let_def)

theorem complete_task_frame_witness:
  "(let a = fst (assign_task (fst (assign_task (Attachee ''Alice'' ''Engineering'') ''Fix bug'' None))
                   ''Write tests'' (Some ''2023-11-15''));
        a' = fst (complete_task a 0)
    in (0 \<le> (0::int) \<and> (0::int) < int (length (tasks a))) \<and>
       length (tasks a') = 2 \<and>
       completed (tasks a' ! 0) \<and>
       description (tasks a' ! 0) = ''Fix bug'' \<and>
       deadline (tasks a' ! 0) = None \<and>
       tasks a' ! 1 = tasks a ! 1 \<and>
       \<not> (0 \<le> (5::int) \<and> (5::int) < int (length (tasks a))) \<and>
       complete_task a 5 = (a, [InvalidTaskIndex]))"
  using complete_task_frame
          [of 0 "fst (assign_task (fst (assign_task (Attachee ''Alice'' ''Engineering'') ''Fix bug'' None))
                   ''Write tests'' (Some ''2023-11-15''))"]
        complete_task_frame
          [of 5 "fst (assign_task (fst (assign_task (Attachee ''Alice'' ''Engineering'') ''Fix bug'' None))
                   ''Write tests'' (Some ''2023-11-15''))"]
  by (simp add: assign_task_def Attachee_def Let_def)

lemma sum_rating_bounds:
  "\<forall>fb \<in> set fs. 1 \<le> rating fb \<and> rating fb \<le> 10 \<Longrightarrow>
     int (length fs) \<le> sum_list (map rating fs) \<and> sum_list (map rating fs) \<le> 10 * int (length fs)"
  by (induction fs) auto

lemma mean_bounds:
  assumes "\<forall>fb \<in> set fs. 1 \<le> rating fb \<and> rating fb \<le> 10" and "fs \<noteq> []"
  shows "(1::rat) \<le> of_int (sum_list (map rating fs)) / of_int (int (length fs))"
    and "of_int (sum_list (map rating fs)) / of_int (int (length fs)) \<le> (10::rat)"
proof -
  let ?t = "sum_list (map rating fs)" and ?n = "int (length fs)"
  have n: "(0::rat) < of_int ?n" using assms(2) by simp
  have "(of_int ?n :: rat) \<le> of_int ?t"
    using sum_rating_bounds [OF assms(1)] by (simp only: of_int_le_iff)
  then show "(1::rat) \<le> of_int ?t / of_int ?n" using n by (simp add: field_simps)
  have "(of_int ?t :: rat) \<le> of_int (10 * ?n)"
    using sum_rating_bounds [OF assms(1)] by (simp only: of_int_le_iff)
  then show "of_int ?t / of_int ?n \<le> (10::rat)" using n by (simp add: field_simps)
qed

lemma calculate_score_nonempty:
  "feedback a \<noteq> [] \<Longrightarrow>
     calculate_score a =
       Inr (a\<lparr>score := PFloat (fl (of_int (rhe (fl (of_int (sum_list (map rating (feedback a)))
                                               / of_int (int (length (feedback a)))) * 10)) / 10))\<rparr>)"
  by (simp add: calculate_score_def Let_def)

lemma round1_range:
  assumes "(1::rat) \<le> q" and "q \<le> 10"
  shows "1 \<le> fl (of_int (rhe (fl q * 10)) / 10)" and "fl (of_int (rhe (fl q * 10)) / 10) \<le> 10"
proof -
  have q53: "\<bar>q\<bar> < 2 ^ 53" using assms by simp
  have d1: "1 \<le> fl q" using fl_bounds(1) [OF q53, of 1] assms by simp
  have d2: "fl q \<le> 10" using fl_bounds(2) [OF q53, of 10] assms by simp
  define k where "k = rhe (fl q * 10)"
  have "of_int 10 \<le> fl q * 10" using d1 by simp
  then have k1: "10 \<le> k" unfolding k_def by (rule rhe_ge)
  have "fl q * 10 \<le> of_int 100" using d2 by simp
  then have k2: "k \<le> 100" unfolding k_def by (rule rhe_le)
  have r1: "(of_int 1 :: rat) \<le> of_int k / 10" using k1 by simp
  have r2: "(of_int k :: rat) / 10 \<le> of_int 10" using k2 by simp
  have r53: "\<bar>(of_int k :: rat) / 10\<bar> < 2 ^ 53" using k1 k2 by simp
  show "1 \<le> fl (of_int (rhe (fl q * 10)) / 10)"
    using fl_bounds(1) [OF r53 r1] by (simp add: k_def)
  show "fl (of_int (rhe (fl q * 10)) / 10) \<le> 10"
    using fl_bounds(2) [OF r53 r2] by (simp add: k_def)
qed

lemma attachee_inv_created: "attachee_inv (Attachee n d)"
  by (simp add: attachee_inv_def Attachee_def)

lemma attachee_inv_step: "attachee_inv a \<Longrightarrow> attachee_inv (attachee_step g a opn)"
proof (cases opn)
  case (AssignTask d dl)
  assume "attachee_inv a"
  then show ?thesis using AssignTask by (simp add: attachee_inv_def assign_task_def)
next
  case (CompleteTask i)
  assume "attachee_inv a"
  then show ?thesis using CompleteTask by (simp add: attachee_inv_def complete_task_def Let_def)
next
  case GetPerformanceReport
  assume "attachee_inv a"
  then show ?thesis using GetPerformanceReport by simp
next
  case (AddFeedback t r)
  assume inv: "attachee_inv a"
  show ?thesis
  proof (cases "1 \<le> r \<and> r \<le> 10")
    case False
    then show ?thesis using inv AddFeedback by (simp add: add_feedback_def)
  next
    case True
    show ?thesis
    proof (cases g)
      case None
      then show ?thesis using inv AddFeedback True by (simp add: add_feedback_def)
    next
      case (Some today)
      define fs where "fs = feedback a @ [\<lparr>fb_text = t, rating = r, date = today\<rparr>]"
      define q :: rat where "q = of_int (sum_list (map rating fs)) / of_int (int (length fs))"
      have ne: "fs \<noteq> []" by (simp add: fs_def)
      have valid: "\<forall>fb \<in> set fs. 1 \<le> rating fb \<and> rating fb \<le> 10"
        using inv True by (auto simp: attachee_inv_def fs_def)
      have step: "attachee_step g a opn =
                    a\<lparr>feedback := fs, score := PFloat (fl (of_int (rhe (fl q * 10)) / 10))\<rparr>"
        using AddFeedback True Some ne
        by (simp add: add_feedback_def calculate_score_def Let_def fs_def q_def)
      have "1 \<le> q" "q \<le> 10" unfolding q_def using mean_bounds [OF valid ne] by auto
      from round1_range [OF this] show ?thesis
        using valid ne by (simp add: step attachee_inv_def)
    qed
  qed
qed

text \<open>
  C10. Every Attachee reachable from the constructor by the public operations stores only
  ratings between 1 and 10, and its score lies between 0 and 10, being 0 exactly when
  there is no feedback; every operation preserves this (a call that raises leaves the
  state as it was).
\<close>

theorem attachee_invariant:
  "(attachee_reachable a \<longrightarrow> attachee_inv a) \<and>
   (attachee_inv b \<longrightarrow> attachee_inv (attachee_step g b opn))"
proof
  show "attachee_reachable a \<longrightarrow> attachee_inv a"
  proof
    assume "attachee_reachable a"
    then show "attachee_inv a"
      by (induction rule: attachee_reachable.induct)
         (simp_all add: attachee_inv_created attachee_inv_step)
  qed
  show "attachee_inv b \<longrightarrow> attachee_inv (attachee_step g b opn)"
    by (simp add: attachee_inv_step)
qed

theorem attachee_invariant_witness:
  "(let a = attachee_step (Some ''2023-11-01'') (Attachee ''Alice'' ''Engineering'')
              (AddFeedback ''Good'' 9)
    in attachee_reachable a \<and> attachee_inv a \<and>
       map rating (feedback a) = [9] \<and>
       attachee_inv (attachee_step (Some ''2023-11-02'') a (AddFeedback ''Great'' 10)))"
proof -
  define a where "a = attachee_step (Some ''2023-11-01'') (Attachee ''Alice'' ''Engineering'')
              (AddFeedback ''Good'' 9)"
  have r: "attachee_reachable a"
    unfolding a_def by (rule attachee_reachable.called [OF attachee_reachable.created])
  have i: "attachee_inv a"
    using attachee_invariant [where a = a] r by blast
  have f: "map rating (feedback a) = [9]"
    unfolding a_def by (simp add: add_feedback_def calculate_score_def Attachee_def Let_def)
  have "attachee_inv (attachee_step (Some ''2023-11-02'') a (AddFeedback ''Great'' 10))"
    using attachee_invariant [where b = a] i by blast
  then show ?thesis
    using r i f unfolding Let_def a_def by blast
qed

section \<open>DivisionManager: properties\<close>

lemma py_truediv_int_ok: "b \<noteq> 0 \<Longrightarrow> py_truediv (PInt a) (PInt b) = Inr (PFloat (fl (of_int a / of_int b)))"
  by simp

lemma get_performance_report_ok: "\<exists>r. get_performance_report a = Inr r"
  by (simp add: get_performance_report_def Let_def)

lemma reports_of_ok: "\<exists>rs. reports_of xs = Inr rs \<and> map Inr rs = map get_performance_report xs"
proof (induction xs)
  case Nil
  show ?case by simp
next
  case (Cons a xs)
  obtain r where r: "get_performance_report a = Inr r"
    using get_performance_report_ok by blast
  from Cons obtain rs where rs: "reports_of xs = Inr rs" "map Inr rs = map get_performance_report xs"
    by blast
  show ?case using r rs by simp
qed

lemma assign_each_eq:
  "assign_each xs t =
     (map (\<lambda>a. a\<lparr>tasks := tasks a @ [\<lparr>description = t, completed = False, deadline = None\<rparr>]\<rparr>) xs,
      map (\<lambda>a. TaskAssigned (name a) t) xs)"
  by (induction xs) (simp_all add: assign_task_def)

lemma keys_lookup:
  "has_division_keys m \<Longrightarrow> (attachees m d = None) = (d \<notin> set DIVISIONS)"
  unfolding has_division_keys_def by (metis domIff)

lemma has_division_keys_init: "has_division_keys DivisionManager"
  by (auto simp: has_division_keys_def DivisionManager_def DIVISIONS_def dom_def split: if_splits)

text \<open>
  C5. In a manager whose dict has the four division names as keys, \<open>add_attachee\<close> with a
  name outside the four returns False and the manager as it was; with one of the four it
  returns True, the division's list extended at the end by a fresh Attachee (no tasks, no
  feedback, score 0), every other division's list as before.
\<close>

theorem add_attachee_spec:
  "has_division_keys m \<Longrightarrow>
     (d \<notin> set DIVISIONS \<longrightarrow> add_attachee m n d = Inr (m, False, [InvalidDivisionError])) \<and>
     (d \<in> set DIVISIONS \<longrightarrow>
        (\<exists>xs m' out. attachees m d = Some xs \<and>
           add_attachee m n d = Inr (m', True, out) \<and>
           attachees m' d =
             Some (xs @ [\<lparr>name = n, division = d, tasks = [], feedback = [], score = PInt 0\<rparr>]) \<and>
           (\<forall>d'. d' \<noteq> d \<longrightarrow> attachees m' d' = attachees m d')))"
proof (intro conjI impI)
  assume "d \<notin> set DIVISIONS"
  then show "add_attachee m n d = Inr (m, False, [InvalidDivisionError])"
    by (simp add: add_attachee_def)
next
  assume k: "has_division_keys m" and d: "d \<in> set DIVISIONS"
  then obtain xs where xs: "attachees m d = Some xs"
    using keys_lookup [OF k, of d] by auto
  show "\<exists>xs m' out. attachees m d = Some xs \<and>
           add_attachee m n d = Inr (m', True, out) \<and>
           attachees m' d =
             Some (xs @ [\<lparr>name = n, division = d, tasks = [], feedback = [], score = PInt 0\<rparr>]) \<and>
           (\<forall>d'. d' \<noteq> d \<longrightarrow> attachees m' d' = attachees m d')"
    using xs d by (simp add: add_attachee_def Attachee_def)
qed

theorem add_attachee_spec_witness:
  "has_division_keys DivisionManager \<and>
   ''Marketing'' \<notin> set DIVISIONS \<and>
   add_attachee DivisionManager ''Bob'' ''Marketing''
     = Inr (DivisionManager, False, [InvalidDivisionError]) \<and>
   ''Engineering'' \<in> set DIVISIONS \<and>
   (\<exists>m' out. add_attachee DivisionManager ''Alice'' ''Engineering'' = Inr (m', True, out) \<and>
      attachees m' ''Engineering''
        = Some [\<lparr>name = ''Alice'', division = ''Engineering'', tasks = [], feedback = [],
                  score = PInt 0\<rparr>] \<and>
      attachees m' ''Hub Support'' = Some [])"
proof -
  have no: "''Marketing'' \<notin> set DIVISIONS" and yes: "''Engineering'' \<in> set DIVISIONS"
    by (simp_all add: DIVISIONS_def)
  have old: "attachees DivisionManager ''Engineering'' = Some []"
    "attachees DivisionManager ''Hub Support'' = Some []"
    by (simp_all add: DivisionManager_def DIVISIONS_def)
  have bad: "add_attachee DivisionManager ''Bob'' ''Marketing''
               = Inr (DivisionManager, False, [InvalidDivisionError])"
    using add_attachee_spec [OF has_division_keys_init, of "''Marketing''" "''Bob''"] no
    by blast
  obtain xs m' out where g:
    "attachees DivisionManager ''Engineering'' = Some xs"
    "add_attachee DivisionManager ''Alice'' ''Engineering'' = Inr (m', True, out)"
    "attachees m' ''Engineering''
       = Some (xs @ [\<lparr>name = ''Alice'', division = ''Engineering'', tasks = [], feedback = [],
                      score = PInt 0\<rparr>])"
    "\<forall>d'. d' \<noteq> ''Engineering'' \<longrightarrow> attachees m' d' = attachees DivisionManager d'"
    using add_attachee_spec [OF has_division_keys_init, of "''Engineering''" "''Alice''"] yes
    by blast
  have "xs = []" using g(1) old(1) by simp
  moreover have "attachees m' ''Hub Support'' = Some []"
    using g(4) old(2) by simp
  ultimately show ?thesis
    using has_division_keys_init no yes bad g(2) g(3) by auto
qed

text \<open>
  C6. In such a manager, \<open>assign_division_task\<close> with an unrecognized division changes
  nothing; with a recognized one every Attachee of that division gets exactly one new task
  at the end of its task list, with the given description, not completed and without
  deadline, in list order (the messages come in that order), and the lists of the other
  divisions stay as they were.
\<close>

theorem assign_division_task_spec:
  "has_division_keys m \<Longrightarrow>
     (d \<notin> set DIVISIONS \<longrightarrow> assign_division_task m d t = (m, [InvalidDivision])) \<and>
     (d \<in> set DIVISIONS \<longrightarrow>
        (\<exists>xs m' out. attachees m d = Some xs \<and>
           assign_division_task m d t = (m', out) \<and>
           attachees m' d =
             Some (map (\<lambda>a. a\<lparr>tasks := tasks a @
                         [\<lparr>description = t, completed = False, deadline = None\<rparr>]\<rparr>) xs) \<and>
           out = map (\<lambda>a. TaskAssigned (name a) t) xs \<and>
           (\<forall>d'. d' \<noteq> d \<longrightarrow> attachees m' d' = attachees m d')))"
proof (intro conjI impI)
  assume k: "has_division_keys m" and "d \<notin> set DIVISIONS"
  then have "attachees m d = None" using keys_lookup by simp
  then show "assign_division_task m d t = (m, [InvalidDivision])"
    by (simp add: assign_division_task_def)
next
  assume k: "has_division_keys m" and d: "d \<in> set DIVISIONS"
  then obtain xs where xs: "attachees m d = Some xs"
    using keys_lookup [OF k, of d] by auto
  show "\<exists>xs m' out. attachees m d = Some xs \<and>
           assign_division_task m d t = (m', out) \<and>
           attachees m' d =
             Some (map (\<lambda>a. a\<lparr>tasks := tasks a @
                         [\<lparr>description = t, completed = False, deadline = None\<rparr>]\<rparr>) xs) \<and>
           out = map (\<lambda>a. TaskAssigned (name a) t) xs \<and>
           (\<forall>d'. d' \<noteq> d \<longrightarrow> attachees m' d' = attachees m d')"
    using xs by (simp add: assign_division_task_def assign_each_eq)
qed

theorem assign_division_task_spec_witness:
  "(let m = manager_step None (manager_step None DivisionManager
                (AddAttachee ''Alice'' ''Engineering'')) (AddAttachee ''Carol'' ''Tech Programs'')
    in has_division_keys m \<and>
       ''Marketing'' \<notin> set DIVISIONS \<and>
       assign_division_task m ''Marketing'' ''Review'' = (m, [InvalidDivision]) \<and>
       ''Engineering'' \<in> set DIVISIONS \<and>
       (\<exists>m' out. assign_division_task m ''Engineering'' ''Review'' = (m', out) \<and>
          out = [TaskAssigned ''Alice'' ''Review''] \<and>
          attachees m' ''Engineering''
            = Some [\<lparr>name = ''Alice'', division = ''Engineering'',
                      tasks = [\<lparr>description = ''Review'', completed = False, deadline = None\<rparr>],
                      feedback = [], score = PInt 0\<rparr>] \<and>
          attachees m' ''Tech Programs'' = attachees m ''Tech Programs''))"
proof -
  define m where "m = manager_step None (manager_step None DivisionManager
                (AddAttachee ''Alice'' ''Engineering'')) (AddAttachee ''Carol'' ''Tech Programs'')"
  have k: "has_division_keys m"
    unfolding m_def
    by (auto simp: has_division_keys_def DivisionManager_def DIVISIONS_def add_attachee_def
                   dom_def split: if_splits)
  have no: "''Marketing'' \<notin> set DIVISIONS" and yes: "''Engineering'' \<in> set DIVISIONS"
    by (simp_all add: DIVISIONS_def)
  have old: "attachees m ''Engineering'' = Some [Attachee ''Alice'' ''Engineering'']"
    unfolding m_def by (simp add: DivisionManager_def DIVISIONS_def add_attachee_def)
  have bad: "assign_division_task m ''Marketing'' ''Review'' = (m, [InvalidDivision])"
    using assign_division_task_spec [OF k, of "''Marketing''" "''Review''"] no by blast
  obtain xs m' out where g:
    "attachees m ''Engineering'' = Some xs"
    "assign_division_task m ''Engineering'' ''Review'' = (m', out)"
    "attachees m' ''Engineering''
       = Some (map (\<lambda>a. a\<lparr>tasks := tasks a @
                    [\<lparr>description = ''Review'', completed = False, deadline = None\<rparr>]\<rparr>) xs)"
    "out = map (\<lambda>a. TaskAssigned (name a) ''Review'') xs"
    "\<forall>d'. d' \<noteq> ''Engineering'' \<longrightarrow> attachees m' d' = attachees m d'"
    using assign_division_task_spec [OF k, of "''Engineering''" "''Review''"] yes by blast
  have xs: "xs = [Attachee ''Alice'' ''Engineering'']" using g(1) old by simp
  have "out = [TaskAssigned ''Alice'' ''Review'']"
    using g(4) xs by (simp add: Attachee_def)
  moreover have "attachees m' ''Engineering''
            = Some [\<lparr>name = ''Alice'', division = ''Engineering'',
                      tasks = [\<lparr>description = ''Review'', completed = False, deadline = None\<rparr>],
                      feedback = [], score = PInt 0\<rparr>]"
    using g(3) xs by (simp add: Attachee_def)
  moreover have "attachees m' ''Tech Programs'' = attachees m ''Tech Programs''"
    using g(5) by simp
  ultimately have "\<exists>m' out. assign_division_task m ''Engineering'' ''Review'' = (m', out) \<and>
          out = [TaskAssigned ''Alice'' ''Review''] \<and>
          attachees m' ''Engineering''
            = Some [\<lparr>name = ''Alice'', division = ''Engineering'',
                      tasks = [\<lparr>description = ''Review'', completed = False, deadline = None\<rparr>],
                      feedback = [], score = PInt 0\<rparr>] \<and>
          attachees m' ''Tech Programs'' = attachees m ''Tech Programs''"
    using g(2) by blast
  then show ?thesis
    using k no yes bad unfolding Let_def m_def by blast
qed

text \<open>
  C7. In such a manager, \<open>get_division_performance\<close> never raises: with an unrecognized
  division it returns the empty list (and prints the invalid-division message); with a
  recognized one it returns the performance reports of the division's Attachees, one per
  Attachee in list order. It has no assignment: the manager after the call is the manager
  before it.
\<close>

theorem get_division_performance_spec:
  "has_division_keys m \<Longrightarrow>
     (d \<notin> set DIVISIONS \<longrightarrow> get_division_performance m d = Inr ([], [InvalidDivision])) \<and>
     (d \<in> set DIVISIONS \<longrightarrow>
        (\<exists>xs rs. attachees m d = Some xs \<and>
           get_division_performance m d = Inr (rs, []) \<and>
           map Inr rs = map get_performance_report xs)) \<and>
     manager_step g m (GetDivisionPerformance d) = m"
proof (intro conjI impI)
  assume k: "has_division_keys m" and "d \<notin> set DIVISIONS"
  then have "attachees m d = None" using keys_lookup by simp
  then show "get_division_performance m d = Inr ([], [InvalidDivision])"
    by (simp add: get_division_performance_def)
next
  assume k: "has_division_keys m" and d: "d \<in> set DIVISIONS"
  then obtain xs where xs: "attachees m d = Some xs"
    using keys_lookup [OF k, of d] by auto
  obtain rs where rs: "reports_of xs = Inr rs" "map Inr rs = map get_performance_report xs"
    using reports_of_ok by blast
  show "\<exists>xs rs. attachees m d = Some xs \<and>
           get_division_performance m d = Inr (rs, []) \<and>
           map Inr rs = map get_performance_report xs"
    using xs rs by (simp add: get_division_performance_def)
next
  show "manager_step g m (GetDivisionPerformance d) = m" by simp
qed

theorem get_division_performance_spec_witness:
  "(let m = manager_step None DivisionManager (AddAttachee ''Alice'' ''Engineering'')
    in has_division_keys m \<and>
       ''Nonexistent'' \<notin> set DIVISIONS \<and>
       get_division_performance m ''Nonexistent'' = Inr ([], [InvalidDivision]) \<and>
       ''Engineering'' \<in> set DIVISIONS \<and>
       get_division_performance m ''Engineering''
         = Inr ([\<lparr>r_name = ''Alice'', r_division = ''Engineering'', total_tasks = 0,
                   completed_tasks = 0, completion_rate = PInt 0, feedback_count = 0,
                   average_score = PInt 0\<rparr>], []) \<and>
       manager_step None m (GetDivisionPerformance ''Engineering'') = m)"
proof -
  define m where "m = manager_step None DivisionManager (AddAttachee ''Alice'' ''Engineering'')"
  have k: "has_division_keys m"
    unfolding m_def
    by (auto simp: has_division_keys_def DivisionManager_def DIVISIONS_def add_attachee_def
                   dom_def split: if_splits)
  have no: "''Nonexistent'' \<notin> set DIVISIONS" and yes: "''Engineering'' \<in> set DIVISIONS"
    by (simp_all add: DIVISIONS_def)
  have old: "attachees m ''Engineering'' = Some [Attachee ''Alice'' ''Engineering'']"
    unfolding m_def by (simp add: DivisionManager_def DIVISIONS_def add_attachee_def)
  have bad: "get_division_performance m ''Nonexistent'' = Inr ([], [InvalidDivision])"
    using get_division_performance_spec [OF k, where d = "''Nonexistent''"] no by blast
  have same: "manager_step None m (GetDivisionPerformance ''Engineering'') = m"
    using get_division_performance_spec [OF k, where d = "''Engineering''" and g = None]
    by blast
  obtain xs rs where g:
    "attachees m ''Engineering'' = Some xs"
    "get_division_performance m ''Engineering'' = Inr (rs, [])"
    "map Inr rs = map get_performance_report xs"
    using get_division_performance_spec [OF k, where d = "''Engineering''"] yes by blast
  have xs: "xs = [Attachee ''Alice'' ''Engineering'']" using g(1) old by simp
  have "rs = [\<lparr>r_name = ''Alice'', r_division = ''Engineering'', total_tasks = 0,
                   completed_tasks = 0, completion_rate = PInt 0, feedback_count = 0,
                   average_score = PInt 0\<rparr>]"
    using g(3) xs by (auto simp: Attachee_def get_performance_report_def map_eq_Cons_conv)
  then show ?thesis
    using k no yes bad same g(2) unfolding Let_def m_def by blast
qed

lemma calculate_score_division:
  "calculate_score a = Inr a' \<Longrightarrow> division a' = division a"
  by (auto simp: calculate_score_def Let_def split: if_splits)

lemma attachee_step_division: "division (attachee_step g a opn) = division a"
proof (cases opn)
  case (AddFeedback t r)
  then show ?thesis
    by (auto simp: add_feedback_def Let_def split: option.splits sum.splits dest: calculate_score_division)
qed (simp_all add: assign_task_def complete_task_def Let_def)

lemma manager_inv_init: "manager_inv DivisionManager"
  by (auto simp: manager_inv_def has_division_keys_def DivisionManager_def DIVISIONS_def dom_def
           split: if_splits)

lemma manager_inv_step: "manager_inv m \<Longrightarrow> manager_inv (manager_step g m opn)"
proof (cases opn)
  case (AddAttachee n d)
  assume inv: "manager_inv m"
  show ?thesis
  proof (cases "d \<in> set DIVISIONS")
    case False
    then show ?thesis using inv AddAttachee by (simp add: add_attachee_def)
  next
    case True
    then obtain xs where xs: "attachees m d = Some xs"
      using inv keys_lookup [of m d] by (auto simp: manager_inv_def)
    have "manager_step g m opn = m\<lparr>attachees := (attachees m)(d \<mapsto> xs @ [Attachee n d])\<rparr>"
      using AddAttachee True xs by (simp add: add_attachee_def)
    moreover have "manager_inv (m\<lparr>attachees := (attachees m)(d \<mapsto> xs @ [Attachee n d])\<rparr>)"
      using inv xs True
      by (auto simp: manager_inv_def has_division_keys_def Attachee_def)
    ultimately show ?thesis by simp
  qed
next
  case (AssignDivisionTask d t)
  assume inv: "manager_inv m"
  show ?thesis
  proof (cases "attachees m d")
    case None
    then show ?thesis using inv AssignDivisionTask by (simp add: assign_division_task_def)
  next
    case (Some xs)
    then have "d \<in> dom (attachees m)" by auto
    then show ?thesis
      using inv Some AssignDivisionTask
      by (auto simp: manager_inv_def has_division_keys_def assign_division_task_def assign_each_eq)
  qed
next
  case (GetDivisionPerformance d)
  assume "manager_inv m"
  then show ?thesis using GetDivisionPerformance by simp
next
  case (DisplayDivisionSummary d)
  assume "manager_inv m"
  then show ?thesis using DisplayDivisionSummary by simp
next
  case (MemberOp d i aop)
  assume inv: "manager_inv m"
  show ?thesis
  proof (cases "attachees m d")
    case None
    then show ?thesis using inv MemberOp by simp
  next
    case (Some xs)
    then have dd: "d \<in> dom (attachees m)" by auto
    show ?thesis
    proof (cases "i < length xs")
      case False
      then show ?thesis using inv Some MemberOp by simp
    next
      case True
      have mem: "\<forall>a \<in> set xs. division a = d"
        using inv Some by (simp add: manager_inv_def)
      have "\<forall>a \<in> set (xs[i := attachee_step g (xs ! i) aop]). division a = d"
      proof
        fix a assume "a \<in> set (xs[i := attachee_step g (xs ! i) aop])"
        then have "a = attachee_step g (xs ! i) aop \<or> a \<in> set xs"
          using set_update_subset_insert by fastforce
        then show "division a = d"
          using mem True by (auto simp: attachee_step_division)
      qed
      then show ?thesis
        using inv Some MemberOp True dd
        by (auto simp: manager_inv_def has_division_keys_def)
    qed
  qed
qed

text \<open>
  C9. Every manager reachable from \<open>DivisionManager()\<close> by the public operations (those of
  the manager and those of its Attachees) has exactly the four division names as keys, and
  every Attachee in the list under \<open>d\<close> has \<open>division = d\<close>; every operation preserves this.
\<close>

theorem manager_invariant:
  "(manager_reachable m \<longrightarrow> manager_inv m) \<and>
   (manager_inv m' \<longrightarrow> manager_inv (manager_step g m' opn))"
proof
  show "manager_reachable m \<longrightarrow> manager_inv m"
  proof
    assume "manager_reachable m"
    then show "manager_inv m"
      by (induction rule: manager_reachable.induct) (simp_all add: manager_inv_init manager_inv_step)
  qed
  show "manager_inv m' \<longrightarrow> manager_inv (manager_step g m' opn)"
    by (simp add: manager_inv_step)
qed

theorem manager_invariant_witness:
  "(let m = manager_step None DivisionManager (AddAttachee ''Alice'' ''Engineering'')
    in manager_reachable m \<and> manager_inv m \<and>
       attachees m ''Engineering'' = Some [Attachee ''Alice'' ''Engineering''] \<and>
       manager_inv (manager_step (Some ''2023-11-01'') m
                      (MemberOp ''Engineering'' 0 (AddFeedback ''Good'' 9))))"
proof -
  define m where "m = manager_step None DivisionManager (AddAttachee ''Alice'' ''Engineering'')"
  have r: "manager_reachable m"
    unfolding m_def by (rule manager_reachable.operated [OF manager_reachable.constructed])
  have i: "manager_inv m"
    using manager_invariant [where m = m] r by blast
  have e: "attachees m ''Engineering'' = Some [Attachee ''Alice'' ''Engineering'']"
    unfolding m_def by (simp add: DivisionManager_def DIVISIONS_def add_attachee_def)
  have "manager_inv (manager_step (Some ''2023-11-01'') m
                      (MemberOp ''Engineering'' 0 (AddFeedback ''Good'' 9)))"
    using manager_invariant [where m' = m] i by blast
  then show ?thesis
    using r i e unfolding Let_def m_def by blast
qed

end
